theory Spec2Isabelle
  imports Main "HOL-Library.Char_ord" "HOL-Library.List_Lexorder" "HOL-Library.Sublist"
    "HOL-Library.Multiset"
begin

section \<open>Python strings\<close>

text \<open>
  A Python \<open>str\<close> is modelled as a \<open>string\<close>; a \<open>char\<close> stands for one code point
  below 256. On such strings \<open>lower\<close>, \<open>strip\<close>, \<open>in\<close> and \<open>join\<close> below compute what
  the Python methods compute.
\<close>

definition newline :: char where
  "newline = char_of (10::nat)"

definition quote :: char where
  "quote = char_of (39::nat)"

definition isspace :: "char \<Rightarrow> bool" where
  \<comment> \<open>the code points below 256 that \<open>str.strip()\<close> removes\<close>
  "isspace c =
     (let n = (of_char c :: nat)
      in (9 \<le> n \<and> n \<le> 13) \<or> (28 \<le> n \<and> n \<le> 32) \<or> n = 133 \<or> n = 160)"

definition strip :: "string \<Rightarrow> string" where
  "strip s = rev (dropWhile isspace (rev (dropWhile isspace s)))"

definition lower_char :: "char \<Rightarrow> char" where
  "lower_char c =
     (let n = (of_char c :: nat)
      in if (65 \<le> n \<and> n \<le> 90) \<or> (192 \<le> n \<and> n \<le> 222 \<and> n \<noteq> 215)
         then char_of (n + 32) else c)"

definition lower :: "string \<Rightarrow> string" where
  "lower s = map lower_char s"

text \<open>\<open>contains sub s\<close> is Python's \<open>sub in s\<close> on strings: \<open>sub\<close> occurs in \<open>s\<close>.\<close>

fun contains :: "string \<Rightarrow> string \<Rightarrow> bool" where
  "contains sub [] = (sub = [])"
| "contains sub (c # cs) = (prefix sub (c # cs) \<or> contains sub cs)"

text \<open>\<open>join sep xs\<close> is Python's \<open>sep.join(xs)\<close>.\<close>

fun join :: "string \<Rightarrow> string list \<Rightarrow> string" where
  "join sep [] = []"
| "join sep [x] = x"
| "join sep (x # y # ys) = x @ sep @ join sep (y # ys)"

section \<open>Paths\<close>

text \<open>A \<open>pathlib.Path\<close> is the list of its components.\<close>

datatype path = Path (parts: "string list")

definition name :: "path \<Rightarrow> string" where
  "name p = (if parts p = [] then [] else last (parts p))"

definition joinpath :: "path \<Rightarrow> string \<Rightarrow> path" where
  \<comment> \<open>\<open>p / s\<close> for a single relative component \<open>s\<close>\<close>
  "joinpath p s = Path (parts p @ [s])"

fun rfind :: "char \<Rightarrow> string \<Rightarrow> nat option" where
  \<comment> \<open>\<open>s.rfind(c)\<close>, with \<open>None\<close> for Python's \<open>-1\<close>\<close>
  "rfind c [] = None"
| "rfind c (x # xs) =
     (case rfind c xs of
        Some i \<Rightarrow> Some (Suc i)
      | None \<Rightarrow> if x = c then Some 0 else None)"

definition stem :: "path \<Rightarrow> string" where
  "stem p =
     (let nm = name p
      in case rfind (CHR ''.'') nm of
           None \<Rightarrow> nm
         | Some i \<Rightarrow> if 0 < i \<and> i + 1 < length nm then take i nm else nm)"

section \<open>Constants of the module\<close>

definition TASK_TYPE :: string where
  "TASK_TYPE = ''default''"

definition MAX_RETRIES :: int where
  "MAX_RETRIES = 5"

section \<open>The backend and its responses\<close>

text \<open>
  What \<open>json.loads\<close> returns, as far as the extractor looks at it: only a \<open>dict\<close>, given
  by its items, has \<open>get\<close>, and only a \<open>str\<close> has \<open>strip\<close>.
\<close>

datatype json =
    JObject "(string \<times> json) list"
  | JArray "json list"
  | JString string
  | JInt
  | JFloat
  | JBool
  | JNull

fun type_name :: "json \<Rightarrow> string" where
  "type_name (JObject _) = ''dict''"
| "type_name (JArray _) = ''list''"
| "type_name (JString _) = ''str''"
| "type_name JInt = ''int''"
| "type_name JFloat = ''float''"
| "type_name JBool = ''bool''"
| "type_name JNull = ''NoneType''"

definition no_attribute :: "json \<Rightarrow> string \<Rightarrow> string" where
  \<comment> \<open>\<open>str(e)\<close> of the \<open>AttributeError\<close> raised by \<open>v.attr\<close>\<close>
  "no_attribute v attr =
     [quote] @ type_name v @ [quote] @ '' object has no attribute '' @ [quote] @ attr @ [quote]"

text \<open>
  The value \<open>ocr_document\<close> returned: a \<open>str\<close>, or some other object given by its
  \<open>str()\<close> rendering.
\<close>

datatype response = StrResp string | ObjResp string

text \<open>
  One call of \<open>ocr_document\<close> either returns a response or raises an exception of class
  \<open>Exception\<close>, given by its \<open>str(e)\<close>. What the handler of line 94 does not catch
  (\<open>KeyboardInterrupt\<close>, \<open>SystemExit\<close>) is not modelled.
\<close>

datatype call_result = Returns response | Raises string

text \<open>
  What the module does not compute itself is a parameter: \<open>json.loads\<close> (\<open>None\<close> when
  it raises \<open>JSONDecodeError\<close>, the one exception it is taken to raise) and the built-in
  \<open>hash\<close> on strings.
\<close>

record env =
  json_loads :: "string \<Rightarrow> json option"
  hash :: "string \<Rightarrow> int"

text \<open>
  What the outside does while one document is processed: whether \<open>mkdir\<close> and
  \<open>write_text\<close> raise (\<open>Some\<close> of the message; a write that raises is taken to leave
  no file), and the results of the calls of \<open>ocr_document\<close>, in the order of the calls.
  Whatever the backend is, the extractor sees it only through this sequence.
\<close>

record outside =
  mkdir_raises :: "string option"
  write_raises :: "string option"
  backend_results :: "call_result list"

fun parse_typhoon_response :: "env \<Rightarrow> response \<Rightarrow> string + json" where
  "parse_typhoon_response E (StrResp resp) =
     (case json_loads E resp of
        None \<Rightarrow> Inr (JString resp)
      | Some (JObject kvs) \<Rightarrow>
          (case map_of kvs ''natural_text'' of
             Some v \<Rightarrow> Inr v
           | None \<Rightarrow> Inr (JString resp))
      | Some parsed \<Rightarrow> Inl (no_attribute parsed ''get''))"
| "parse_typhoon_response E (ObjResp rendered) = Inr (JString rendered)"

fun strip_method :: "json \<Rightarrow> string + string" where
  \<comment> \<open>\<open>v.strip()\<close>\<close>
  "strip_method (JString s) = Inr (strip s)"
| "strip_method v = Inl (no_attribute v ''strip'')"

text \<open>
  Lines 81 to 86: the call and the parsing of its result, inside the \<open>try\<close>. \<open>Inr\<close> is
  the trimmed text, \<open>Inl\<close> the \<open>str(e)\<close> of the exception that reaches the handler.
\<close>

definition attempt :: "env \<Rightarrow> call_result \<Rightarrow> string + string" where
  "attempt E r =
     (case r of
        Raises e \<Rightarrow> Inl e
      | Returns resp \<Rightarrow>
          (case parse_typhoon_response E resp of
             Inl e \<Rightarrow> Inl e
           | Inr v \<Rightarrow> strip_method v))"

text \<open>The two tests of the handler, on \<open>str(e)\<close> and on \<open>msg = str(e).lower()\<close>.\<close>

definition end_of_doc :: "string \<Rightarrow> bool" where
  "end_of_doc msg =
     ((contains ''page'' msg \<and>
         (contains ''not found'' msg \<or> contains ''invalid'' msg \<or> contains ''out of range'' msg)) \<or>
      (contains ''index'' msg \<and> contains ''range'' msg) \<or>
      contains ''wrong page range'' msg \<or>
      (contains ''first page'' msg \<and> contains ''after the last page'' msg))"

definition rate_limit :: "string \<Rightarrow> string \<Rightarrow> bool" where
  "rate_limit str_e msg =
     (contains ''429'' str_e \<or> contains ''rate limit'' msg \<or> contains ''too many requests'' msg)"

section \<open>The extractor\<close>

text \<open>
  What the function does to the outside, in order. A sleep is recorded without its
  random part: \<open>Sleep_backoff b j\<close> sleeps \<open>b + j * 0.1 + random.uniform(0, 1)\<close> seconds,
  \<open>Sleep_between j\<close> sleeps \<open>0.2 + j * 0.02\<close> seconds; \<open>Extract p\<close> is the walker
  calling the extractor on \<open>p\<close>. Console output is left out.
\<close>

datatype event =
    Mkdir path
  | Sleep_delay
  | Called int call_result
  | Sleep_backoff int int
  | Write_text path string
  | Extract path
  | Sleep_between int

record state =
  page_num :: int
  pages :: "string list"
  retries :: int
  page_success :: bool
  log :: "event list"

definition emit :: "event \<Rightarrow> state \<Rightarrow> state" where
  "emit e s = s\<lparr>log := log s @ [e]\<rparr>"

text \<open>
  How a run ends: a \<open>return\<close> (inside the page loop or after it), an exception that
  leaves the function, or \<open>Starved\<close>: the given backend results are used up and the
  loop is still running.
\<close>

datatype return_site = In_loop | After_loop

datatype ending = Returned return_site "path option" | Raised string | Starved

text \<open>Lines 104 to 110 and 134 to 140: write what was accumulated, or report nothing.\<close>

definition write_pages :: "string option \<Rightarrow> return_site \<Rightarrow> path \<Rightarrow> state \<Rightarrow> ending \<times> state" where
  "write_pages wr site out_path s =
     (if pages s \<noteq> [] then
        (case wr of
           Some e \<Rightarrow> (Raised e, s)
         | None \<Rightarrow>
             (Returned site (Some out_path),
              emit (Write_text out_path (join [newline, newline] (pages s))) s))
      else (Returned site None, s))"

text \<open>Lines 70 and 71: each turn of the page loop starts a fresh retry count.\<close>

definition begin_page :: "state \<Rightarrow> state" where
  "begin_page s = s\<lparr>retries := 0, page_success := False\<rparr>"

text \<open>
  Lines 76 to 85: the delay before every request beyond page 1, then the call, whose
  result \<open>r\<close> is recorded with the page number asked for.
\<close>

definition request :: "call_result \<Rightarrow> state \<Rightarrow> state" where
  "request r s =
     (let s1 = (if page_num s > 1 then emit Sleep_delay s else s)
      in emit (Called (page_num s1) r) s1)"

text \<open>Lines 87 to 92: a page that was read.\<close>

definition on_success :: "string \<Rightarrow> state \<Rightarrow> state" where
  "on_success text s =
     (let s1 = (if text \<noteq> [] then s\<lparr>pages := pages s @ [text]\<rparr> else s);
          s2 = s1\<lparr>page_success := True\<rparr>
      in s2\<lparr>page_num := page_num s2 + 1\<rparr>)"

text \<open>Lines 114 to 121: a throttled request.\<close>

definition on_rate_limit :: "env \<Rightarrow> string \<Rightarrow> state \<Rightarrow> state" where
  "on_rate_limit E worker_id s =
     (let s1 = s\<lparr>retries := retries s + 1\<rparr>;
          base_backoff = 2 ^ nat (retries s1);
          worker_jitter = hash E worker_id mod 10
      in emit (Sleep_backoff base_backoff worker_jitter) s1)"

text \<open>Lines 124 to 126: any other error.\<close>

definition on_other_error :: "state \<Rightarrow> state" where
  "on_other_error s = s\<lparr>page_num := page_num s + 1\<rparr>"

text \<open>Lines 129 to 131, after the retry loop.\<close>

definition after_retries :: "state \<Rightarrow> state" where
  "after_retries s =
     (if \<not> page_success s \<and> retries s \<ge> MAX_RETRIES
      then s\<lparr>page_num := page_num s + 1\<rparr> else s)"

text \<open>Line 69: the test of the page loop is the constant \<open>True\<close>.\<close>

definition page_loop_test :: bool where
  "page_loop_test = True"

text \<open>
  The two loops. \<open>page_loop\<close> is \<open>while True\<close> with the code after it; \<open>retry_loop\<close> is
  \<open>while retries < MAX_RETRIES\<close>, each turn of which consumes one backend result. A
  \<open>break\<close> leaves \<open>retry_loop\<close> for line 129, a \<open>continue\<close> goes back to its test.
\<close>

function
  page_loop ::
    "env \<Rightarrow> string option \<Rightarrow> path \<Rightarrow> string \<Rightarrow> state \<Rightarrow> call_result list \<Rightarrow> ending \<times> state" and
  retry_loop ::
    "env \<Rightarrow> string option \<Rightarrow> path \<Rightarrow> string \<Rightarrow> state \<Rightarrow> call_result list \<Rightarrow> ending \<times> state"
where
  "page_loop E wr out_path worker_id s rs =
     (if page_loop_test
      then retry_loop E wr out_path worker_id (begin_page s) rs
      else write_pages wr After_loop out_path s)"
| "retry_loop E wr out_path worker_id s rs =
     (if retries s < MAX_RETRIES then
        (case rs of
           [] \<Rightarrow> (Starved, s)
         | r # rs' \<Rightarrow>
             (let s' = request r s
              in case attempt E r of
                   Inr text \<Rightarrow>
                     page_loop E wr out_path worker_id (after_retries (on_success text s')) rs'
                 | Inl str_e \<Rightarrow>
                     (let msg = lower str_e
                      in if end_of_doc msg then write_pages wr In_loop out_path s'
                         else if rate_limit str_e msg
                         then retry_loop E wr out_path worker_id (on_rate_limit E worker_id s') rs'
                         else page_loop E wr out_path worker_id
                                (after_retries (on_other_error s')) rs')))
      else page_loop E wr out_path worker_id (after_retries s) rs)"
  by pat_completeness auto
termination
  by (relation "measure (\<lambda>x. case x of
          Inl (E, wr, p, w, s, rs) \<Rightarrow> 3 * length rs + 1
        | Inr (E, wr, p, w, s, rs) \<Rightarrow>
            3 * length rs + (if retries s < MAX_RETRIES then 0 else 2))")
     (auto simp: begin_page_def MAX_RETRIES_def)

text \<open>Lines 56 to 67, then the loops.\<close>

definition extract_pdf_multipage ::
  "env \<Rightarrow> outside \<Rightarrow> path \<Rightarrow> string \<Rightarrow> path \<Rightarrow> string \<Rightarrow> ending \<times> state" where
  "extract_pdf_multipage E D pdf_path task_type output_dir worker_id =
     (let s0 = \<lparr>page_num = 1, pages = [], retries = 0, page_success = False, log = []\<rparr>
      in case mkdir_raises D of
           Some e \<Rightarrow> (Raised e, s0)
         | None \<Rightarrow>
             (let s1 = emit (Mkdir output_dir) s0;
                  out_path = joinpath output_dir (stem pdf_path @ ''.txt'')
              in page_loop E (write_raises D) out_path worker_id s1 (backend_results D)))"

section \<open>The directory walker\<close>

text \<open>
  The input directory: whether it exists, the names of its entries in the order the
  operating system lists them, and what the outside does for each document. Names are
  matched as on a case-sensitive file system.
\<close>

record world =
  dir_exists :: bool
  dir_entries :: "string list"
  outside_of :: "path \<Rightarrow> outside"

definition glob_pdf :: "path \<Rightarrow> string list \<Rightarrow> path list" where
  \<comment> \<open>\<open>dir_path.glob("*.pdf")\<close>: the entries of the directory itself whose name ends in \<open>.pdf\<close>\<close>
  "glob_pdf dir_path entries = map (joinpath dir_path) (filter (suffix ''.pdf'') entries)"

text \<open>
  Lines 159 to 171: the loop over the documents, \<open>i\<close> counting from 1 and \<open>n\<close> the
  number of documents. \<open>None\<close> when a document used up its backend results with its
  page loop still running.
\<close>

fun for_pdfs ::
  "env \<Rightarrow> world \<Rightarrow> path \<Rightarrow> string \<Rightarrow> int \<Rightarrow> int \<Rightarrow> path list \<Rightarrow> event list \<Rightarrow> path list \<Rightarrow>
   path list option \<times> event list" where
  "for_pdfs E W output_dir worker_id n i results lg [] = (Some results, lg)"
| "for_pdfs E W output_dir worker_id n i results lg (pdf # rest) =
     (let (e, s) = extract_pdf_multipage E (outside_of W pdf) pdf TASK_TYPE output_dir worker_id;
          lg1 = lg @ [Extract pdf] @ log s
      in case e of
           Starved \<Rightarrow> (None, lg1)
         | _ \<Rightarrow>
             (let results1 = (case e of Returned site (Some out) \<Rightarrow> results @ [out] | _ \<Rightarrow> results);
                  lg2 = (if i < n then lg1 @ [Sleep_between (hash E worker_id mod 10)] else lg1)
              in for_pdfs E W output_dir worker_id n (i + 1) results1 lg2 rest))"

definition process_directory ::
  "env \<Rightarrow> world \<Rightarrow> path \<Rightarrow> path \<Rightarrow> string \<Rightarrow> path list option \<times> event list" where
  "process_directory E W dir_path output_dir worker_id =
     (if \<not> dir_exists W then (Some [], [])
      else
        (let pdfs = sort_key name (glob_pdf dir_path (dir_entries W))
         in if pdfs = [] then (Some [], [])
            else for_pdfs E W output_dir worker_id (int (length pdfs)) 1 [] [] pdfs))"

section \<open>The credential\<close>

text \<open>
  \<open>raise SystemExit(msg)\<close> with a string: the interpreter prints the message and the
  process ends with status 1.
\<close>

datatype exit = SystemExit string

fun exit_status :: "exit \<Rightarrow> int" where
  "exit_status (SystemExit msg) = 1"

text \<open>
  Lines 176 to 192, with \<open>os.getenv\<close> as a parameter. \<open>the\<close> is read only where \<open>truthy\<close>
  holds, as the operand after Python's \<open>and\<close> is.
\<close>

definition truthy :: "string option \<Rightarrow> bool" where
  \<comment> \<open>the truth value of an \<open>Optional[str]\<close>\<close>
  "truthy v = (case v of None \<Rightarrow> False | Some k \<Rightarrow> k \<noteq> [])"

definition get_api_key_priority_order ::
  "(string \<Rightarrow> string option) \<Rightarrow> string option \<Rightarrow> exit + string" where
  "get_api_key_priority_order getenv provided_key =
     (if truthy provided_key \<and> lower (the provided_key) \<notin> set [''none'', ''dummy'', []]
      then Inr (the provided_key)
      else
        (let conda_key = getenv ''TYPHOON_OCR_API_KEY''
         in if truthy conda_key then Inr (the conda_key)
            else
              (let regular_key = getenv ''OPENAI_API_KEY''
               in if truthy regular_key then Inr (the regular_key)
                  else Inl (SystemExit
                    ''No API key found. Provide via: command line, conda env var (TYPHOON_OCR_API_KEY), or env var''))))"

section \<open>Reading a log\<close>

text \<open>The calls of the backend, the files written and the documents started, in order.\<close>

fun calls :: "event list \<Rightarrow> (int \<times> call_result) list" where
  "calls [] = []"
| "calls (Called n r # es) = (n, r) # calls es"
| "calls (_ # es) = calls es"

fun writes :: "event list \<Rightarrow> (path \<times> string) list" where
  "writes [] = []"
| "writes (Write_text p c # es) = (p, c) # writes es"
| "writes (_ # es) = writes es"

fun backoffs :: "event list \<Rightarrow> (int \<times> int) list" where
  "backoffs [] = []"
| "backoffs (Sleep_backoff b j # es) = (b, j) # backoffs es"
| "backoffs (_ # es) = backoffs es"

fun extracted :: "event list \<Rightarrow> path list" where
  "extracted [] = []"
| "extracted (Extract p # es) = p # extracted es"
| "extracted (_ # es) = extracted es"

text \<open>
  A call that ended in an error the handler takes for the end of the document, and the
  non-empty trimmed text of a call that read its page.
\<close>

definition is_end_of_doc :: "env \<Rightarrow> call_result \<Rightarrow> bool" where
  "is_end_of_doc E r = (case attempt E r of Inl e \<Rightarrow> end_of_doc (lower e) | Inr t \<Rightarrow> False)"

definition text_of :: "env \<Rightarrow> call_result \<Rightarrow> string option" where
  "text_of E r = (case attempt E r of Inr t \<Rightarrow> if t \<noteq> [] then Some t else None | Inl e \<Rightarrow> None)"

definition texts :: "env \<Rightarrow> call_result list \<Rightarrow> string list" where
  "texts E rs = List.map_filter (text_of E) rs"

definition reads :: "env \<Rightarrow> event list \<Rightarrow> (int \<times> string) list" where
  \<comment> \<open>the pages read with non-empty text: page number and text\<close>
  "reads E lg =
     List.map_filter (\<lambda>(n, r). case text_of E r of Some t \<Rightarrow> Some (n, t) | None \<Rightarrow> None) (calls lg)"

definition before_end :: "env \<Rightarrow> call_result list \<Rightarrow> call_result list" where
  \<comment> \<open>the results before the first end-of-document error\<close>
  "before_end E rs = takeWhile (\<lambda>r. \<not> is_end_of_doc E r) rs"

definition up_to_end :: "env \<Rightarrow> call_result list \<Rightarrow> call_result list" where
  \<comment> \<open>the results up to the first end-of-document error, that error included\<close>
  "up_to_end E rs = before_end E rs @ take 1 (dropWhile (\<lambda>r. \<not> is_end_of_doc E r) rs)"

text \<open>A call that ended in an error the handler takes for throttling.\<close>

definition is_rate_limited :: "env \<Rightarrow> call_result \<Rightarrow> bool" where
  "is_rate_limited E r =
     (case attempt E r of
        Inl e \<Rightarrow> \<not> end_of_doc (lower e) \<and> rate_limit e (lower e)
      | Inr t \<Rightarrow> False)"

text \<open>
  The accumulated texts are those of the read pages, which were asked for in strictly
  ascending page order, all below the page cursor.
\<close>

definition in_page_order :: "env \<Rightarrow> state \<Rightarrow> bool" where
  "in_page_order E s =
     (map snd (reads E (log s)) = pages s \<and>
      sorted_wrt (<) (map fst (reads E (log s))) \<and>
      (\<forall>n \<in> set (map fst (reads E (log s))). n < page_num s))"

section \<open>Notions used in the statements\<close>

text \<open>
  The state in which the page loop is entered (lines 58 to 62, after \<open>mkdir\<close>), and the
  output path of line 65.
\<close>

definition start :: "path \<Rightarrow> state" where
  "start output_dir =
     \<lparr>page_num = 1, pages = [], retries = 0, page_success = False, log = [Mkdir output_dir]\<rparr>"

definition out_path_of :: "path \<Rightarrow> path \<Rightarrow> path" where
  "out_path_of output_dir pdf_path = joinpath output_dir (stem pdf_path @ ''.txt'')"

text \<open>What a document adds to the list the walker returns (lines 161 to 166).\<close>

definition produced :: "env \<Rightarrow> world \<Rightarrow> path \<Rightarrow> string \<Rightarrow> path \<Rightarrow> path option" where
  "produced E W output_dir worker_id pdf =
     (case fst (extract_pdf_multipage E (outside_of W pdf) pdf TASK_TYPE output_dir worker_id) of
        Returned site out \<Rightarrow> out
      | Raised e \<Rightarrow> None
      | Starved \<Rightarrow> None)"

text \<open>
  A key on the command line that line 179 accepts: present, not empty, and not one of
  the placeholders \<open>none\<close> and \<open>dummy\<close> in any letter case.
\<close>

definition given :: "string option \<Rightarrow> bool" where
  "given provided_key =
     (case provided_key of
        None \<Rightarrow> False
      | Some k \<Rightarrow> k \<noteq> [] \<and> lower k \<noteq> ''none'' \<and> lower k \<noteq> ''dummy'')"

section \<open>Sample inputs\<close>

text \<open>
  A \<open>json.loads\<close> that knows two documents and rejects every other string used below,
  none of which is JSON; a worker whose hash is 7.
\<close>

definition sample_env :: env where
  "sample_env =
     \<lparr>json_loads = (\<lambda>s. if s = ''[1]'' then Some (JArray [JInt])
                        else if s = ''{}'' then Some (JObject []) else None),
      hash = (\<lambda>w. 7)\<rparr>"

definition sample_pdf :: path where
  "sample_pdf = Path [''in'', ''doc.pdf'']"

definition sample_out :: path where
  "sample_out = Path [''out'']"

text \<open>
  Six pages: text, blank, an error, a response that is a JSON list, text, and the end
  of the document; the two results after it are never asked for.
\<close>

definition mixed_document :: outside where
  "mixed_document =
     \<lparr>mkdir_raises = None, write_raises = None,
      backend_results =
        [Returns (StrResp '' alpha ''), Returns (StrResp ''  ''), Raises ''internal error'',
         Returns (StrResp ''[1]''), Returns (ObjResp ''beta''), Raises ''Page not found'',
         Returns (StrResp ''gamma''), Raises ''list index out of range'']\<rparr>"

text \<open>A blank page, an error, a page throttled five times, then the end.\<close>

definition blank_document :: outside where
  "blank_document =
     \<lparr>mkdir_raises = None, write_raises = None,
      backend_results =
        [Returns (StrResp ''   ''), Raises ''boom'', Raises ''429'', Raises ''429'', Raises ''429'',
         Raises ''429'', Raises ''429'', Raises ''list index out of range'',
         Returns (StrResp ''late'')]\<rparr>"

text \<open>
  Text A, two throttling errors and then text B on page 2, text C, and the end of the
  document.
\<close>

definition retried_document :: outside where
  "retried_document =
     \<lparr>mkdir_raises = None, write_raises = None,
      backend_results =
        [Returns (StrResp ''A''), Raises ''Error code: 429'', Raises ''Rate limit exceeded'',
         Returns (StrResp '' B ''), Returns (ObjResp ''C''), Raises ''Page 4 is out of range'']\<rparr>"

text \<open>
  A first page that fails with a quota message, and a first page whose error matches
  both the end-of-document and the throttling patterns.
\<close>

definition quota_document :: outside where
  "quota_document =
     \<lparr>mkdir_raises = None, write_raises = None,
      backend_results =
        [Raises ''Quota exceeded for this API key'', Returns (StrResp ''B''),
         Raises ''page out of range'']\<rparr>"

definition both_document :: outside where
  "both_document =
     \<lparr>mkdir_raises = None, write_raises = None,
      backend_results =
        [Raises ''429: requested page is out of range'', Returns (StrResp ''B''),
         Raises ''page out of range'']\<rparr>"

text \<open>
  Results without an end-of-document error.
\<close>

definition endless_document :: outside where
  "endless_document =
     \<lparr>mkdir_raises = None, write_raises = None,
      backend_results = [Returns (StrResp ''A''), Raises ''boom'', Raises ''429'']\<rparr>"

text \<open>
  A directory of four documents and two other files: \<open>a.pdf\<close> is extracted,
  \<open>write_text\<close> raises for \<open>b.pdf\<close>, \<open>c.pdf\<close> has no text, and \<open>mkdir\<close> raises for
  \<open>d.pdf\<close>.
\<close>

definition sample_outside :: "path \<Rightarrow> outside" where
  "sample_outside pdf =
     (if name pdf = ''a.pdf'' then mixed_document
      else if name pdf = ''b.pdf'' then mixed_document\<lparr>write_raises := Some ''disk full''\<rparr>
      else if name pdf = ''c.pdf'' then blank_document
      else mixed_document\<lparr>mkdir_raises := Some ''permission denied''\<rparr>)"

definition sample_world :: world where
  "sample_world =
     \<lparr>dir_exists = True,
      dir_entries = [''c.pdf'', ''notes.txt'', ''a.pdf'', ''d.pdf'', ''b.pdf'', ''B.pdf.bak''],
      outside_of = sample_outside\<rparr>"

text \<open>
  Two environments: one with both variables set, one where only the generic variable
  holds a key.
\<close>

definition sample_getenv :: "string \<Rightarrow> string option" where
  "sample_getenv v =
     (if v = ''TYPHOON_OCR_API_KEY'' then Some ''key-typhoon''
      else if v = ''OPENAI_API_KEY'' then Some ''key-generic'' else None)"

definition generic_getenv :: "string \<Rightarrow> string option" where
  "generic_getenv v =
     (if v = ''TYPHOON_OCR_API_KEY'' then Some []
      else if v = ''OPENAI_API_KEY'' then Some ''key-generic'' else None)"

section \<open>Substrings\<close>

lemma contains_iff: "contains sub s \<longleftrightarrow> (\<exists>pre post. s = pre @ sub @ post)"
proof (induction s)
  case Nil
  then show ?case by simp
next
  case (Cons c cs)
  show ?case
  proof
    assume "contains sub (c # cs)"
    then consider "prefix sub (c # cs)" | "contains sub cs" by auto
    then show "\<exists>pre post. c # cs = pre @ sub @ post"
    proof cases
      case 1
      then obtain post where "c # cs = sub @ post" by (auto simp add: prefix_def)
      then have "c # cs = [] @ sub @ post" by simp
      then show ?thesis by blast
    next
      case 2
      then obtain pre post where "cs = pre @ sub @ post" using Cons.IH by blast
      then have "c # cs = (c # pre) @ sub @ post" by simp
      then show ?thesis by blast
    qed
  next
    assume "\<exists>pre post. c # cs = pre @ sub @ post"
    then obtain pre post where eq: "c # cs = pre @ sub @ post" by blast
    show "contains sub (c # cs)"
    proof (cases pre)
      case Nil
      then have "prefix sub (c # cs)" using eq by (simp add: prefix_def)
      then show ?thesis by simp
    next
      case (Cons d pre')
      then have "cs = pre' @ sub @ post" using eq by simp
      then have "contains sub cs" using Cons.IH by blast
      then show ?thesis by simp
    qed
  qed
qed

section \<open>Unfolding the loops\<close>

declare page_loop.simps [simp del] retry_loop.simps [simp del]

lemma page_loop_eq: "page_loop E wr p w s rs = retry_loop E wr p w (begin_page s) rs"
  by (simp add: page_loop.simps page_loop_test_def)

lemma retry_loop_exhausted:
  "\<not> retries s < MAX_RETRIES \<Longrightarrow> retry_loop E wr p w s rs = page_loop E wr p w (after_retries s) rs"
  by (simp add: retry_loop.simps)

lemma retry_loop_starved:
  "retries s < MAX_RETRIES \<Longrightarrow> retry_loop E wr p w s [] = (Starved, s)"
  by (simp add: retry_loop.simps)

lemma retry_loop_success:
  "retries s < MAX_RETRIES \<Longrightarrow> attempt E r = Inr t \<Longrightarrow>
   retry_loop E wr p w s (r # rs) = page_loop E wr p w (after_retries (on_success t (request r s))) rs"
  by (simp add: retry_loop.simps)

lemma retry_loop_end_of_doc:
  "retries s < MAX_RETRIES \<Longrightarrow> attempt E r = Inl e \<Longrightarrow> end_of_doc (lower e) \<Longrightarrow>
   retry_loop E wr p w s (r # rs) = write_pages wr In_loop p (request r s)"
  by (simp add: retry_loop.simps)

lemma retry_loop_rate_limit:
  "retries s < MAX_RETRIES \<Longrightarrow> attempt E r = Inl e \<Longrightarrow> \<not> end_of_doc (lower e) \<Longrightarrow>
   rate_limit e (lower e) \<Longrightarrow>
   retry_loop E wr p w s (r # rs) = retry_loop E wr p w (on_rate_limit E w (request r s)) rs"
  by (subst retry_loop.simps) simp

lemma retry_loop_other:
  "retries s < MAX_RETRIES \<Longrightarrow> attempt E r = Inl e \<Longrightarrow> \<not> end_of_doc (lower e) \<Longrightarrow>
   \<not> rate_limit e (lower e) \<Longrightarrow>
   retry_loop E wr p w s (r # rs) = page_loop E wr p w (after_retries (on_other_error (request r s))) rs"
  by (simp add: retry_loop.simps)

lemma loops_induct [case_names page exhausted starved success end_of_doc rate_limit other]:
  assumes page: "\<And>s rs. Q (begin_page s) rs \<Longrightarrow> P s rs"
    and exhausted: "\<And>s rs. \<not> retries s < MAX_RETRIES \<Longrightarrow> P (after_retries s) rs \<Longrightarrow> Q s rs"
    and starved: "\<And>s. retries s < MAX_RETRIES \<Longrightarrow> Q s []"
    and success: "\<And>s r rs t. retries s < MAX_RETRIES \<Longrightarrow> attempt E r = Inr t \<Longrightarrow>
           P (after_retries (on_success t (request r s))) rs \<Longrightarrow> Q s (r # rs)"
    and end_of_doc: "\<And>s r rs e. retries s < MAX_RETRIES \<Longrightarrow> attempt E r = Inl e \<Longrightarrow>
           end_of_doc (lower e) \<Longrightarrow> Q s (r # rs)"
    and rate_limit: "\<And>s r rs e. retries s < MAX_RETRIES \<Longrightarrow> attempt E r = Inl e \<Longrightarrow>
           \<not> end_of_doc (lower e) \<Longrightarrow> rate_limit e (lower e) \<Longrightarrow>
           Q (on_rate_limit E w (request r s)) rs \<Longrightarrow> Q s (r # rs)"
    and other: "\<And>s r rs e. retries s < MAX_RETRIES \<Longrightarrow> attempt E r = Inl e \<Longrightarrow>
           \<not> end_of_doc (lower e) \<Longrightarrow> \<not> rate_limit e (lower e) \<Longrightarrow>
           P (after_retries (on_other_error (request r s))) rs \<Longrightarrow> Q s (r # rs)"
  shows "P s rs" and "Q s rs"
proof -
  have Q: "Q s rs" for s rs
  proof (induction "3 * length rs + (if retries s < MAX_RETRIES then 0 else 2)"
      arbitrary: s rs rule: less_induct)
    case less
    show ?case
    proof (cases "retries s < MAX_RETRIES")
      case False
      have "Q (begin_page (after_retries s)) rs"
        by (rule less) (use False in \<open>simp add: begin_page_def MAX_RETRIES_def\<close>)
      then show ?thesis
        using page exhausted False by blast
    next
      case True
      show ?thesis
      proof (cases rs)
        case Nil
        then show ?thesis using starved True by simp
      next
        case (Cons r rs')
        have IH: "Q s' rs'" for s'
          by (rule less) (simp add: Cons True)
        show ?thesis
        proof (cases "attempt E r")
          case (Inr t)
          then show ?thesis
            using success [OF True Inr] page IH Cons by blast
        next
          case (Inl e)
          then show ?thesis
            using end_of_doc [OF True Inl] rate_limit [OF True Inl] other [OF True Inl]
              page IH Cons by blast
        qed
      qed
    qed
  qed
  show "Q s rs" by (rule Q)
  show "P s rs" by (rule page) (rule Q)
qed

lemma calls_append [simp]: "calls (xs @ ys) = calls xs @ calls ys"
  by (induction xs rule: calls.induct) simp_all

lemma writes_append [simp]: "writes (xs @ ys) = writes xs @ writes ys"
  by (induction xs rule: writes.induct) simp_all

lemma backoffs_append [simp]: "backoffs (xs @ ys) = backoffs xs @ backoffs ys"
  by (induction xs rule: backoffs.induct) simp_all

lemma reads_append [simp]: "reads E (xs @ ys) = reads E xs @ reads E ys"
  by (simp add: reads_def List.map_filter_def)


lemma reads_Cons [simp]:
  "reads E [] = []"
  "reads E (Called n r # es) = (case text_of E r of Some t \<Rightarrow> (n, t) # reads E es | None \<Rightarrow> reads E es)"
  "reads E (Mkdir d # es) = reads E es"
  "reads E (Sleep_delay # es) = reads E es"
  "reads E (Sleep_backoff b j # es) = reads E es"
  "reads E (Write_text q c # es) = reads E es"
  "reads E (Extract q # es) = reads E es"
  "reads E (Sleep_between j # es) = reads E es"
  by (simp_all add: reads_def List.map_filter_def split: option.splits)

lemma texts_simps [simp]:
  "texts E [] = []"
  "texts E (r # rs) = (case text_of E r of Some t \<Rightarrow> t # texts E rs | None \<Rightarrow> texts E rs)"
  by (simp_all add: texts_def List.map_filter_def split: option.splits)

lemma begin_page_simps [simp]:
  "pages (begin_page s) = pages s" "log (begin_page s) = log s"
  "page_num (begin_page s) = page_num s" "retries (begin_page s) = 0"
  by (simp_all add: begin_page_def)

lemma request_simps [simp]:
  "pages (request r s) = pages s"
  "log (request r s) =
     log s @ (if page_num s > 1 then [Sleep_delay] else []) @ [Called (page_num s) r]"
  "page_num (request r s) = page_num s" "retries (request r s) = retries s"
  by (simp_all add: request_def emit_def)

lemma on_success_simps [simp]:
  "pages (on_success t s) = pages s @ (if t \<noteq> [] then [t] else [])"
  "log (on_success t s) = log s" "page_num (on_success t s) = page_num s + 1"
  "retries (on_success t s) = retries s" "page_success (on_success t s)"
  by (simp_all add: on_success_def)

lemma on_rate_limit_simps [simp]:
  "pages (on_rate_limit E w s) = pages s"
  "log (on_rate_limit E w s) = log s @ [Sleep_backoff (2 ^ nat (retries s + 1)) (hash E w mod 10)]"
  "page_num (on_rate_limit E w s) = page_num s" "retries (on_rate_limit E w s) = retries s + 1"
  by (simp_all add: on_rate_limit_def emit_def)

lemma on_other_error_simps [simp]:
  "pages (on_other_error s) = pages s" "log (on_other_error s) = log s"
  "page_num (on_other_error s) = page_num s + 1" "retries (on_other_error s) = retries s"
  by (simp_all add: on_other_error_def)

lemma after_retries_simps [simp]:
  "pages (after_retries s) = pages s" "log (after_retries s) = log s"
  "page_num (after_retries s) =
     (if \<not> page_success s \<and> MAX_RETRIES \<le> retries s then page_num s + 1 else page_num s)"
  by (simp_all add: after_retries_def)

lemma write_pages_simps [simp]:
  "fst (write_pages wr site p s) =
     (if pages s = [] then Returned site None
      else case wr of Some e \<Rightarrow> Raised e | None \<Rightarrow> Returned site (Some p))"
  "pages (snd (write_pages wr site p s)) = pages s"
  "page_num (snd (write_pages wr site p s)) = page_num s"
  "log (snd (write_pages wr site p s)) =
     log s @ (if pages s \<noteq> [] \<and> wr = None then [Write_text p (join [newline, newline] (pages s))] else [])"
  by (auto simp add: write_pages_def emit_def split: option.splits)

lemma before_end_simps [simp]:
  "before_end E [] = []"
  "before_end E (r # rs) = (if is_end_of_doc E r then [] else r # before_end E rs)"
  by (simp_all add: before_end_def)

lemma up_to_end_simps [simp]:
  "up_to_end E [] = []"
  "up_to_end E (r # rs) = (if is_end_of_doc E r then [r] else r # up_to_end E rs)"
  by (simp_all add: up_to_end_def before_end_def)

lemma is_end_of_doc_Inl: "attempt E r = Inl e \<Longrightarrow> is_end_of_doc E r = end_of_doc (lower e)"
  by (simp add: is_end_of_doc_def)

lemma is_end_of_doc_Inr: "attempt E r = Inr t \<Longrightarrow> \<not> is_end_of_doc E r"
  by (simp add: is_end_of_doc_def)

lemma text_of_Inl: "attempt E r = Inl e \<Longrightarrow> text_of E r = None"
  by (simp add: text_of_def)

lemma text_of_Inr: "attempt E r = Inr t \<Longrightarrow> text_of E r = (if t \<noteq> [] then Some t else None)"
  by (simp add: text_of_def)

lemmas attempt_simps = is_end_of_doc_Inl is_end_of_doc_Inr text_of_Inl text_of_Inr

lemma loops_pages:
  shows "pages (snd (page_loop E wr p w s rs)) = pages s @ texts E (before_end E rs)"
    and "pages (snd (retry_loop E wr p w s rs)) = pages s @ texts E (before_end E rs)"
proof (induction s rs and s rs rule: loops_induct [where E = E and w = w])
  case (page s rs)
  then show ?case by (simp add: page_loop_eq)
next
  case (exhausted s rs)
  then show ?case by (simp add: retry_loop_exhausted)
next
  case (starved s)
  then show ?case by (simp add: retry_loop_starved)
next
  case (success s r rs t)
  then show ?case by (simp add: retry_loop_success attempt_simps)
next
  case (end_of_doc s r rs e)
  then show ?case by (simp add: retry_loop_end_of_doc attempt_simps)
next
  case (rate_limit s r rs e)
  then show ?case by (simp add: retry_loop_rate_limit attempt_simps)
next
  case (other s r rs e)
  then show ?case by (simp add: retry_loop_other attempt_simps)
qed

lemma loops_ending:
  shows "fst (page_loop E wr p w s rs) =
      (if \<exists>r \<in> set rs. is_end_of_doc E r
       then (if pages s @ texts E (before_end E rs) = [] then Returned In_loop None
             else case wr of Some e \<Rightarrow> Raised e | None \<Rightarrow> Returned In_loop (Some p))
       else Starved)"
    and "fst (retry_loop E wr p w s rs) =
      (if \<exists>r \<in> set rs. is_end_of_doc E r
       then (if pages s @ texts E (before_end E rs) = [] then Returned In_loop None
             else case wr of Some e \<Rightarrow> Raised e | None \<Rightarrow> Returned In_loop (Some p))
       else Starved)"
proof (induction s rs and s rs rule: loops_induct [where E = E and w = w])
  case (page s rs)
  then show ?case by (simp add: page_loop_eq)
next
  case (exhausted s rs)
  then show ?case by (simp add: retry_loop_exhausted)
next
  case (starved s)
  then show ?case by (simp add: retry_loop_starved)
next
  case (success s r rs t)
  then show ?case by (simp add: retry_loop_success attempt_simps)
next
  case (end_of_doc s r rs e)
  then show ?case by (simp add: retry_loop_end_of_doc attempt_simps)
next
  case (rate_limit s r rs e)
  then show ?case by (simp add: retry_loop_rate_limit attempt_simps)
next
  case (other s r rs e)
  then show ?case by (simp add: retry_loop_other attempt_simps)
qed

lemma loops_writes:
  shows "writes (log (snd (page_loop E wr p w s rs))) = writes (log s) @
      (if (\<exists>r \<in> set rs. is_end_of_doc E r) \<and> pages s @ texts E (before_end E rs) \<noteq> [] \<and> wr = None
       then [(p, join [newline, newline] (pages s @ texts E (before_end E rs)))] else [])"
    and "writes (log (snd (retry_loop E wr p w s rs))) = writes (log s) @
      (if (\<exists>r \<in> set rs. is_end_of_doc E r) \<and> pages s @ texts E (before_end E rs) \<noteq> [] \<and> wr = None
       then [(p, join [newline, newline] (pages s @ texts E (before_end E rs)))] else [])"
proof (induction s rs and s rs rule: loops_induct [where E = E and w = w])
  case (page s rs)
  then show ?case by (simp add: page_loop_eq)
next
  case (exhausted s rs)
  then show ?case by (simp add: retry_loop_exhausted)
next
  case (starved s)
  then show ?case by (simp add: retry_loop_starved)
next
  case (success s r rs t)
  then show ?case by (simp add: retry_loop_success attempt_simps)
next
  case (end_of_doc s r rs e)
  then show ?case by (simp add: retry_loop_end_of_doc attempt_simps)
next
  case (rate_limit s r rs e)
  then show ?case by (simp add: retry_loop_rate_limit attempt_simps)
next
  case (other s r rs e)
  then show ?case by (simp add: retry_loop_other attempt_simps)
qed

lemma loops_calls:
  shows "map snd (calls (log (snd (page_loop E wr p w s rs)))) =
      map snd (calls (log s)) @ up_to_end E rs"
    and "map snd (calls (log (snd (retry_loop E wr p w s rs)))) =
      map snd (calls (log s)) @ up_to_end E rs"
proof (induction s rs and s rs rule: loops_induct [where E = E and w = w])
  case (page s rs)
  then show ?case by (simp add: page_loop_eq)
next
  case (exhausted s rs)
  then show ?case by (simp add: retry_loop_exhausted)
next
  case (starved s)
  then show ?case by (simp add: retry_loop_starved)
next
  case (success s r rs t)
  then show ?case by (simp add: retry_loop_success attempt_simps)
next
  case (end_of_doc s r rs e)
  then show ?case by (simp add: retry_loop_end_of_doc attempt_simps)
next
  case (rate_limit s r rs e)
  then show ?case by (simp add: retry_loop_rate_limit attempt_simps)
next
  case (other s r rs e)
  then show ?case by (simp add: retry_loop_other attempt_simps)
qed

lemma in_page_order_same:
  assumes "in_page_order E s" and "reads E (log s') = reads E (log s)"
    and "pages s' = pages s" and "page_num s \<le> page_num s'"
  shows "in_page_order E s'"
  using assms by (auto simp add: in_page_order_def)

lemma in_page_order_read:
  assumes "in_page_order E s" and "reads E (log s') = reads E (log s) @ [(page_num s, t)]"
    and "pages s' = pages s @ [t]" and "page_num s < page_num s'"
  shows "in_page_order E s'"
  using assms by (auto simp add: in_page_order_def sorted_wrt_append)

lemma loops_order:
  shows "in_page_order E s \<Longrightarrow> in_page_order E (snd (page_loop E wr p w s rs))"
    and "in_page_order E s \<Longrightarrow> in_page_order E (snd (retry_loop E wr p w s rs))"
proof (induction s rs and s rs rule: loops_induct [where E = E and w = w])
  case (page s rs)
  have "in_page_order E (begin_page s)"
    using page.prems by (rule in_page_order_same) simp_all
  then show ?case using page by (simp add: page_loop_eq)
next
  case (exhausted s rs)
  have "in_page_order E (after_retries s)"
    using exhausted.prems by (rule in_page_order_same) simp_all
  then show ?case using exhausted by (simp add: retry_loop_exhausted)
next
  case (starved s)
  then show ?case by (simp add: retry_loop_starved)
next
  case (success s r rs t)
  have "in_page_order E (on_success t (request r s))"
  proof (cases "t = []")
    case True
    show ?thesis
      using success.prems
      by (rule in_page_order_same) (simp_all add: attempt_simps success.hyps True)
  next
    case False
    show ?thesis
      using success.prems
      by (rule in_page_order_read [where t = t]) (simp_all add: attempt_simps success.hyps False)
  qed
  then have "in_page_order E (after_retries (on_success t (request r s)))"
    by (rule in_page_order_same) simp_all
  then show ?case
    using success by (simp add: retry_loop_success)
next
  case (end_of_doc s r rs e)
  have "in_page_order E (snd (write_pages wr In_loop p (request r s)))"
    using end_of_doc.prems
    by (rule in_page_order_same) (simp_all add: attempt_simps end_of_doc.hyps)
  then show ?case
    using end_of_doc by (simp add: retry_loop_end_of_doc)
next
  case (rate_limit s r rs e)
  have "in_page_order E (on_rate_limit E w (request r s))"
    using rate_limit.prems
    by (rule in_page_order_same) (simp_all add: attempt_simps rate_limit.hyps)
  then show ?case
    using rate_limit by (simp add: retry_loop_rate_limit)
next
  case (other s r rs e)
  have "in_page_order E (on_other_error (request r s))"
    using other.prems
    by (rule in_page_order_same) (simp_all add: attempt_simps other.hyps)
  then have "in_page_order E (after_retries (on_other_error (request r s)))"
    by (rule in_page_order_same) simp_all
  then show ?case
    using other by (simp add: retry_loop_other)
qed

lemma page_success_simps [simp]:
  "\<not> page_success (begin_page s)" "page_success (request r s) = page_success s"
  "page_success (on_rate_limit E w s) = page_success s"
  "page_success (on_other_error s) = page_success s"
  "page_success (after_retries s) = page_success s"
  "retries (after_retries s) = retries s"
  by (simp_all add: begin_page_def request_def emit_def on_rate_limit_def on_other_error_def
      after_retries_def)

lemma delay_simps [simp]:
  "calls (if c then [Sleep_delay] else []) = []"
  "backoffs (if c then [Sleep_delay] else []) = []"
  "writes (if c then [Sleep_delay] else []) = []"
  "reads E (if c then [Sleep_delay] else []) = []"
  by simp_all

lemma extracted_append [simp]: "extracted (xs @ ys) = extracted xs @ extracted ys"
  by (induction xs rule: extracted.induct) simp_all

lemma loops_log_prefix:
  shows "prefix (log s) (log (snd (page_loop E wr p w s rs)))"
    and "prefix (log s) (log (snd (retry_loop E wr p w s rs)))"
proof (induction s rs and s rs rule: loops_induct [where E = E and w = w])
  case (page s rs)
  then show ?case by (simp add: page_loop_eq)
next
  case (exhausted s rs)
  then show ?case by (simp add: retry_loop_exhausted)
next
  case (starved s)
  then show ?case by (simp add: retry_loop_starved)
next
  case (success s r rs t)
  then show ?case by (auto simp add: retry_loop_success dest: append_prefixD)
next
  case (end_of_doc s r rs e)
  then show ?case by (simp add: retry_loop_end_of_doc)
next
  case (rate_limit s r rs e)
  then show ?case by (auto simp add: retry_loop_rate_limit dest: append_prefixD)
next
  case (other s r rs e)
  then show ?case by (auto simp add: retry_loop_other dest: append_prefixD)
qed

lemma calls_prefix: "prefix xs ys \<Longrightarrow> prefix (calls xs) (calls ys)"
  by (auto simp add: prefix_def)

lemma retry_loop_first_call:
  assumes "retries s < MAX_RETRIES"
  shows "prefix (calls (log s) @ [(page_num s, r)]) (calls (log (snd (retry_loop E wr p w s (r # rs)))))"
proof -
  have "prefix (log (request r s)) (log (snd (retry_loop E wr p w s (r # rs))))"
  proof (cases "attempt E r")
    case (Inr t)
    have "prefix (log (after_retries (on_success t (request r s))))
       (log (snd (page_loop E wr p w (after_retries (on_success t (request r s))) rs)))"
      by (rule loops_log_prefix)
    then show ?thesis using assms Inr by (simp add: retry_loop_success)
  next
    case (Inl e)
    show ?thesis
    proof (cases "end_of_doc (lower e)")
      case True
      then show ?thesis using assms Inl by (simp add: retry_loop_end_of_doc)
    next
      case False
      show ?thesis
      proof (cases "rate_limit e (lower e)")
        case True
        have "prefix (log (request r s)) (log (on_rate_limit E w (request r s)))"
          by simp
        also have "prefix (log (on_rate_limit E w (request r s)))
           (log (snd (retry_loop E wr p w (on_rate_limit E w (request r s)) rs)))"
          by (rule loops_log_prefix)
        finally show ?thesis
          using assms Inl False True by (simp add: retry_loop_rate_limit)
      next
        case nr: False
        have "prefix (log (after_retries (on_other_error (request r s))))
           (log (snd (page_loop E wr p w (after_retries (on_other_error (request r s))) rs)))"
          by (rule loops_log_prefix)
        then show ?thesis
          using assms Inl False nr by (simp add: retry_loop_other)
      qed
    qed
  qed
  then have "prefix (calls (log (request r s))) (calls (log (snd (retry_loop E wr p w s (r # rs)))))"
    by (rule calls_prefix)
  then show ?thesis by simp
qed

lemma page_loop_first_call:
  "prefix (calls (log s) @ [(page_num s, r)]) (calls (log (snd (page_loop E wr p w s (r # rs)))))"
  using retry_loop_first_call [of "begin_page s" r E wr p w rs]
  by (simp add: page_loop_eq MAX_RETRIES_def)

lemma is_rate_limitedE:
  assumes "is_rate_limited E r"
  obtains e where "attempt E r = Inl e" "\<not> end_of_doc (lower e)" "rate_limit e (lower e)"
  using assms by (auto simp add: is_rate_limited_def split: sum.splits)

lemma retry_loop_throttled:
  assumes "retries s < MAX_RETRIES" and "is_rate_limited E r"
  shows "retry_loop E wr p w s (r # rs) = retry_loop E wr p w (on_rate_limit E w (request r s)) rs"
  using assms by (auto elim!: is_rate_limitedE simp add: retry_loop_rate_limit)

lemma loops_extracted:
  shows "extracted (log (snd (page_loop E wr p w s rs))) = extracted (log s)"
    and "extracted (log (snd (retry_loop E wr p w s rs))) = extracted (log s)"
proof (induction s rs and s rs rule: loops_induct [where E = E and w = w])
  case (page s rs)
  then show ?case by (simp add: page_loop_eq)
next
  case (exhausted s rs)
  then show ?case by (simp add: retry_loop_exhausted)
next
  case (starved s)
  then show ?case by (simp add: retry_loop_starved)
next
  case (success s r rs t)
  then show ?case by (simp add: retry_loop_success)
next
  case (end_of_doc s r rs e)
  then show ?case by (simp add: retry_loop_end_of_doc)
next
  case (rate_limit s r rs e)
  then show ?case by (simp add: retry_loop_rate_limit)
next
  case (other s r rs e)
  then show ?case by (simp add: retry_loop_other)
qed

section \<open>Errors raised while parsing\<close>

text \<open>
  An exception raised by \<open>_parse_typhoon_response\<close> or by \<open>strip\<close> is an
  \<open>AttributeError\<close>, whose message matches neither the end-of-document nor the
  throttling patterns: such a page is skipped as any other error, and the calls taken
  for the end of the document or for throttling are calls that raised.
\<close>

lemma attribute_errors_other:
  "\<forall>t \<in> set [''dict'', ''list'', ''str'', ''int'', ''float'', ''bool'', ''NoneType''].
   \<forall>a \<in> set [''get'', ''strip''].
     \<not> end_of_doc (lower ([quote] @ t @ [quote] @ '' object has no attribute '' @ [quote] @ a @ [quote])) \<and>
     \<not> rate_limit ([quote] @ t @ [quote] @ '' object has no attribute '' @ [quote] @ a @ [quote])
        (lower ([quote] @ t @ [quote] @ '' object has no attribute '' @ [quote] @ a @ [quote]))"
  by code_simp

lemma type_name_cases:
  "type_name v \<in> set [''dict'', ''list'', ''str'', ''int'', ''float'', ''bool'', ''NoneType'']"
  by (cases v) simp_all

lemma no_attribute_other:
  assumes "a = ''get'' \<or> a = ''strip''"
  shows "\<not> end_of_doc (lower (no_attribute v a)) \<and>
    \<not> rate_limit (no_attribute v a) (lower (no_attribute v a))"
  using attribute_errors_other type_name_cases [of v] assms
  unfolding no_attribute_def by (metis list.set_intros(1,2))

lemma attempt_Returns_other:
  assumes "attempt E (Returns resp) = Inl e"
  shows "\<not> end_of_doc (lower e) \<and> \<not> rate_limit e (lower e)"
proof -
  have "\<exists>v a. e = no_attribute v a \<and> (a = ''get'' \<or> a = ''strip'')"
  proof (cases "parse_typhoon_response E resp")
    case (Inl x)
    then have "e = x" using assms by (simp add: attempt_def)
    moreover have "\<exists>v. x = no_attribute v ''get''"
      using Inl by (cases resp) (auto split: option.splits json.splits)
    ultimately show ?thesis by blast
  next
    case (Inr v)
    then have "strip_method v = Inl e" using assms by (simp add: attempt_def)
    then have "e = no_attribute v ''strip''" by (cases v) simp_all
    then show ?thesis by blast
  qed
  then show ?thesis using no_attribute_other by blast
qed

lemma is_end_of_doc_iff:
  "is_end_of_doc E r \<longleftrightarrow> (\<exists>e. r = Raises e \<and> end_of_doc (lower e))"
proof (cases r)
  case (Returns resp)
  then show ?thesis
    using attempt_Returns_other [of E resp]
    by (auto simp add: is_end_of_doc_def split: sum.splits)
next
  case (Raises e)
  then show ?thesis by (simp add: is_end_of_doc_def attempt_def)
qed

lemma is_rate_limited_iff:
  "is_rate_limited E r \<longleftrightarrow>
     (\<exists>e. r = Raises e \<and> \<not> end_of_doc (lower e) \<and> rate_limit e (lower e))"
proof (cases r)
  case (Returns resp)
  then show ?thesis
    using attempt_Returns_other [of E resp]
    by (auto simp add: is_rate_limited_def split: sum.splits)
next
  case (Raises e)
  then show ?thesis by (simp add: is_rate_limited_def attempt_def)
qed

lemma end_of_doc_arrives_iff:
  "(\<exists>r \<in> set rs. is_end_of_doc E r) \<longleftrightarrow> (\<exists>e. Raises e \<in> set rs \<and> end_of_doc (lower e))"
  by (auto simp add: is_end_of_doc_iff)

section \<open>The extractor as a whole\<close>

lemma start_simps [simp]:
  "page_num (start d) = 1" "pages (start d) = []" "retries (start d) = 0"
  "log (start d) = [Mkdir d]"
  by (simp_all add: start_def)

lemma extract_unfold:
  "mkdir_raises D = None \<Longrightarrow>
   extract_pdf_multipage E D pdf_path task_type output_dir worker_id =
     page_loop E (write_raises D) (out_path_of output_dir pdf_path) worker_id (start output_dir)
       (backend_results D)"
  by (simp add: extract_pdf_multipage_def start_def out_path_of_def emit_def)

lemma extract_mkdir_raises:
  "mkdir_raises D = Some e \<Longrightarrow>
   fst (extract_pdf_multipage E D pdf_path task_type output_dir worker_id) = Raised e \<and>
   log (snd (extract_pdf_multipage E D pdf_path task_type output_dir worker_id)) = []"
  by (simp add: extract_pdf_multipage_def)

lemma extract_ending:
  "fst (extract_pdf_multipage E D pdf_path task_type output_dir worker_id) =
     (case mkdir_raises D of
        Some e \<Rightarrow> Raised e
      | None \<Rightarrow>
          if \<exists>r \<in> set (backend_results D). is_end_of_doc E r
          then (if texts E (before_end E (backend_results D)) = [] then Returned In_loop None
                else case write_raises D of
                       Some e \<Rightarrow> Raised e
                     | None \<Rightarrow> Returned In_loop (Some (out_path_of output_dir pdf_path)))
          else Starved)"
  by (simp add: extract_unfold extract_mkdir_raises loops_ending split: option.splits)

lemma extract_writes:
  "writes (log (snd (extract_pdf_multipage E D pdf_path task_type output_dir worker_id))) =
     (if mkdir_raises D = None \<and> (\<exists>r \<in> set (backend_results D). is_end_of_doc E r) \<and>
         texts E (before_end E (backend_results D)) \<noteq> [] \<and> write_raises D = None
      then [(out_path_of output_dir pdf_path,
             join [newline, newline] (texts E (before_end E (backend_results D))))]
      else [])"
proof (cases "mkdir_raises D")
  case None
  then show ?thesis by (simp add: extract_unfold loops_writes)
next
  case (Some e)
  then show ?thesis by (simp add: extract_mkdir_raises)
qed

lemma extract_calls:
  "mkdir_raises D = None \<Longrightarrow>
   map snd (calls (log (snd (extract_pdf_multipage E D pdf_path task_type output_dir worker_id)))) =
     up_to_end E (backend_results D)"
  by (simp add: extract_unfold loops_calls)

lemma extract_pages:
  "mkdir_raises D = None \<Longrightarrow>
   pages (snd (extract_pdf_multipage E D pdf_path task_type output_dir worker_id)) =
     texts E (before_end E (backend_results D))"
  by (simp add: extract_unfold loops_pages)

lemma extract_order:
  "mkdir_raises D = None \<Longrightarrow>
   in_page_order E (snd (extract_pdf_multipage E D pdf_path task_type output_dir worker_id))"
proof -
  assume "mkdir_raises D = None"
  moreover have "in_page_order E (start output_dir)"
    by (simp add: in_page_order_def)
  ultimately show ?thesis
    by (simp add: extract_unfold loops_order)
qed

lemma extract_extracted:
  "extracted (log (snd (extract_pdf_multipage E D pdf_path task_type output_dir worker_id))) = []"
proof (cases "mkdir_raises D")
  case None
  then show ?thesis by (simp add: extract_unfold loops_extracted)
next
  case (Some e)
  then show ?thesis by (simp add: extract_mkdir_raises)
qed

lemma texts_empty_iff: "texts E rs = [] \<longleftrightarrow> (\<forall>r \<in> set rs. text_of E r = None)"
  by (induction rs) (auto split: option.splits)

section \<open>The walker\<close>

lemma for_pdfs_walk:
  assumes "\<forall>pdf \<in> set pdfs.
      fst (extract_pdf_multipage E (outside_of W pdf) pdf TASK_TYPE output_dir worker_id) \<noteq> Starved"
  shows "fst (for_pdfs E W output_dir worker_id n i results lg pdfs) =
        Some (results @ List.map_filter (produced E W output_dir worker_id) pdfs) \<and>
      extracted (snd (for_pdfs E W output_dir worker_id n i results lg pdfs)) =
        extracted lg @ pdfs"
  using assms
proof (induction pdfs arbitrary: i results lg)
  case Nil
  then show ?case by (simp add: List.map_filter_simps)
next
  case (Cons pdf rest)
  obtain e s where run:
    "extract_pdf_multipage E (outside_of W pdf) pdf TASK_TYPE output_dir worker_id = (e, s)"
    by (cases "extract_pdf_multipage E (outside_of W pdf) pdf TASK_TYPE output_dir worker_id")
  have ne: "e \<noteq> Starved"
    using Cons.prems run by simp
  have ex: "extracted (log s) = []"
    using extract_extracted [of E "outside_of W pdf" pdf TASK_TYPE output_dir worker_id] run by simp
  have rest: "\<forall>pdf \<in> set rest.
      fst (extract_pdf_multipage E (outside_of W pdf) pdf TASK_TYPE output_dir worker_id) \<noteq> Starved"
    using Cons.prems by simp
  note IH = Cons.IH [OF rest]
  show ?case
  proof (cases e)
    case (Returned site out)
    then show ?thesis
      using run ex IH
      by (cases out) (simp_all add: produced_def List.map_filter_simps Let_def)
  next
    case (Raised x)
    then show ?thesis
      using run ex IH by (simp add: produced_def List.map_filter_simps Let_def)
  next
    case Starved
    then show ?thesis using ne by simp
  qed
qed

section \<open>The output file\<close>

text \<open>
  C1. Whatever the backend results are, when the extractor returns an output path the
  file was written exactly once, and its content is the texts of the pages read with
  non-empty trimmed text, joined by \<open>"\n\n"\<close>. These pages were asked for in strictly
  ascending page order; they are the non-empty texts among the results before the first
  end-of-document error, and no call was made after that error. The return is the one
  inside the loop.
\<close>

theorem extract_file_content:
  assumes "extract_pdf_multipage E D pdf_path task_type output_dir worker_id =
      (Returned site (Some out), s)"
  shows "writes (log s) = [(out, join [newline, newline] (map snd (reads E (log s))))] \<and>
      map snd (reads E (log s)) = texts E (before_end E (backend_results D)) \<and>
      sorted_wrt (<) (map fst (reads E (log s))) \<and>
      map snd (calls (log s)) = up_to_end E (backend_results D) \<and>
      (\<exists>r \<in> set (backend_results D). is_end_of_doc E r) \<and>
      site = In_loop \<and> out = joinpath output_dir (stem pdf_path @ ''.txt'')"
proof -
  let ?run = "extract_pdf_multipage E D pdf_path task_type output_dir worker_id"
  have ending: "fst ?run = Returned site (Some out)" and s: "snd ?run = s"
    using assms by simp_all
  have mk: "mkdir_raises D = None"
    using ending by (simp add: extract_ending split: option.splits)
  have facts: "\<exists>r \<in> set (backend_results D). is_end_of_doc E r"
    "texts E (before_end E (backend_results D)) \<noteq> []" "write_raises D = None"
    "site = In_loop" "out = out_path_of output_dir pdf_path"
    using ending mk by (simp_all add: extract_ending split: option.splits if_splits)
  have order: "in_page_order E s"
    using extract_order [OF mk, of E pdf_path task_type output_dir worker_id] s by simp
  have pg: "pages s = texts E (before_end E (backend_results D))"
    using extract_pages [OF mk, of E pdf_path task_type output_dir worker_id] s by simp
  have rd: "map snd (reads E (log s)) = texts E (before_end E (backend_results D))"
    using order pg by (simp add: in_page_order_def)
  have wr: "writes (log s) = [(out, join [newline, newline] (map snd (reads E (log s))))]"
    using extract_writes [of E D pdf_path task_type output_dir worker_id] s mk facts rd by simp
  have cl: "map snd (calls (log s)) = up_to_end E (backend_results D)"
    using extract_calls [OF mk, of E pdf_path task_type output_dir worker_id] s by simp
  show ?thesis
    using wr rd order cl facts by (simp add: in_page_order_def out_path_of_def)
qed

theorem extract_file_content_witness:
  "extract_pdf_multipage sample_env mixed_document sample_pdf TASK_TYPE sample_out ''w1'' =
     (Returned In_loop (Some (Path [''out'', ''doc.txt''])),
      snd (extract_pdf_multipage sample_env mixed_document sample_pdf TASK_TYPE sample_out ''w1'')) \<and>
   writes (log (snd (extract_pdf_multipage sample_env mixed_document sample_pdf TASK_TYPE sample_out ''w1''))) =
     [(Path [''out'', ''doc.txt''], ''alpha'' @ [newline, newline] @ ''beta'')] \<and>
   reads sample_env (log (snd (extract_pdf_multipage sample_env mixed_document sample_pdf TASK_TYPE sample_out ''w1''))) =
     [(1, ''alpha''), (5, ''beta'')]"
proof -
  let ?run = "extract_pdf_multipage sample_env mixed_document sample_pdf TASK_TYPE sample_out ''w1''"
  have "fst ?run = Returned In_loop (Some (Path [''out'', ''doc.txt'']))"
    by code_simp
  then have h: "?run = (Returned In_loop (Some (Path [''out'', ''doc.txt''])), snd ?run)"
    by (simp add: prod_eq_iff)
  have r: "reads sample_env (log (snd ?run)) = [(1, ''alpha''), (5, ''beta'')]"
    by code_simp
  show ?thesis
    using h r extract_file_content [OF h] by simp
qed

text \<open>
  C2. When the end-of-document error arrives and no result before it gave non-empty
  text, the extractor returns \<open>None\<close> and writes no file.
\<close>

theorem extract_nothing_read:
  assumes "mkdir_raises D = None"
    and "\<exists>r \<in> set (backend_results D). is_end_of_doc E r"
    and "\<forall>r \<in> set (before_end E (backend_results D)). text_of E r = None"
  shows "fst (extract_pdf_multipage E D pdf_path task_type output_dir worker_id) =
        Returned In_loop None \<and>
      writes (log (snd (extract_pdf_multipage E D pdf_path task_type output_dir worker_id))) = []"
proof -
  have "texts E (before_end E (backend_results D)) = []"
    using assms(3) by (simp add: texts_empty_iff)
  then show ?thesis
    using assms(1,2) by (simp add: extract_ending extract_writes)
qed

theorem extract_nothing_read_witness:
  "fst (extract_pdf_multipage sample_env blank_document sample_pdf TASK_TYPE sample_out ''w1'') =
     Returned In_loop None \<and>
   writes (log (snd (extract_pdf_multipage sample_env blank_document sample_pdf TASK_TYPE sample_out ''w1''))) = []"
proof -
  have 1: "mkdir_raises blank_document = None"
    by (simp add: blank_document_def)
  have 2: "\<exists>r \<in> set (backend_results blank_document). is_end_of_doc sample_env r"
    by code_simp
  have 3: "\<forall>r \<in> set (before_end sample_env (backend_results blank_document)).
      text_of sample_env r = None"
    by code_simp
  show ?thesis
    by (rule extract_nothing_read [OF 1 2 3])
qed

text \<open>
  C3. Text A on page 1, two throttling errors and then text B on page 2, text C on
  page 3, and the end of the document on page 4: the file holds the seven characters
  \<open>"A\n\nB\n\nC"\<close>, page 2 was asked for three times, and two backoffs were slept.
\<close>

theorem three_pages_with_backoff:
  assumes "mkdir_raises D = None" and "write_raises D = None"
    and "backend_results D = [rA, Raises e1, Raises e2, rB, rC, Raises e3]"
    and "attempt E rA = Inr ''A''" and "attempt E rB = Inr ''B''" and "attempt E rC = Inr ''C''"
    and "\<not> end_of_doc (lower e1)" and "rate_limit e1 (lower e1)"
    and "\<not> end_of_doc (lower e2)" and "rate_limit e2 (lower e2)"
    and "end_of_doc (lower e3)"
  shows "fst (extract_pdf_multipage E D pdf_path task_type output_dir worker_id) =
        Returned In_loop (Some (joinpath output_dir (stem pdf_path @ ''.txt''))) \<and>
      writes (log (snd (extract_pdf_multipage E D pdf_path task_type output_dir worker_id))) =
        [(joinpath output_dir (stem pdf_path @ ''.txt''),
          ''A'' @ [newline, newline] @ ''B'' @ [newline, newline] @ ''C'')] \<and>
      length (''A'' @ [newline, newline] @ ''B'' @ [newline, newline] @ ''C'') = 7 \<and>
      calls (log (snd (extract_pdf_multipage E D pdf_path task_type output_dir worker_id))) =
        [(1, rA), (2, Raises e1), (2, Raises e2), (2, rB), (3, rC), (4, Raises e3)] \<and>
      map fst (backoffs (log (snd (extract_pdf_multipage E D pdf_path task_type output_dir worker_id)))) =
        [2, 4]"
proof -
  have a: "attempt E (Raises e1) = Inl e1" "attempt E (Raises e2) = Inl e2"
    "attempt E (Raises e3) = Inl e3"
    by (simp_all add: attempt_def)
  have t: "texts E (before_end E (backend_results D)) = [''A'', ''B'', ''C'']"
    using assms a by (simp add: attempt_simps)
  have e: "\<exists>r \<in> set (backend_results D). is_end_of_doc E r"
    using assms a by (simp add: attempt_simps)
  have 1: "fst (extract_pdf_multipage E D pdf_path task_type output_dir worker_id) =
        Returned In_loop (Some (joinpath output_dir (stem pdf_path @ ''.txt'')))"
    using assms(1,2) t e by (simp add: extract_ending out_path_of_def)
  have 2: "writes (log (snd (extract_pdf_multipage E D pdf_path task_type output_dir worker_id))) =
        [(joinpath output_dir (stem pdf_path @ ''.txt''),
          ''A'' @ [newline, newline] @ ''B'' @ [newline, newline] @ ''C'')]"
    using assms(1,2) t e by (simp add: extract_writes out_path_of_def)
  have 3: "calls (log (snd (extract_pdf_multipage E D pdf_path task_type output_dir worker_id))) =
        [(1, rA), (2, Raises e1), (2, Raises e2), (2, rB), (3, rC), (4, Raises e3)]"
    using assms a
    by (simp add: extract_unfold page_loop_eq retry_loop_success retry_loop_rate_limit
        retry_loop_end_of_doc MAX_RETRIES_def)
  have 4: "map fst (backoffs (log (snd (extract_pdf_multipage E D pdf_path task_type output_dir worker_id)))) =
        [2, 4]"
    using assms a
    by (simp add: extract_unfold page_loop_eq retry_loop_success retry_loop_rate_limit
        retry_loop_end_of_doc MAX_RETRIES_def)
  show ?thesis
    using 1 2 3 4 by simp
qed

theorem three_pages_with_backoff_witness:
  "fst (extract_pdf_multipage sample_env retried_document sample_pdf TASK_TYPE sample_out ''w1'') =
     Returned In_loop (Some (Path [''out'', ''doc.txt''])) \<and>
   writes (log (snd (extract_pdf_multipage sample_env retried_document sample_pdf TASK_TYPE
       sample_out ''w1''))) =
     [(Path [''out'', ''doc.txt''], ''A'' @ [newline, newline] @ ''B'' @ [newline, newline] @ ''C'')] \<and>
   calls (log (snd (extract_pdf_multipage sample_env retried_document sample_pdf TASK_TYPE
       sample_out ''w1''))) =
     [(1, Returns (StrResp ''A'')), (2, Raises ''Error code: 429''),
      (2, Raises ''Rate limit exceeded''), (2, Returns (StrResp '' B '')),
      (3, Returns (ObjResp ''C'')), (4, Raises ''Page 4 is out of range'')] \<and>
   map fst (backoffs (log (snd (extract_pdf_multipage sample_env retried_document sample_pdf
       TASK_TYPE sample_out ''w1'')))) = [2, 4]"
proof -
  have 1: "mkdir_raises retried_document = None" "write_raises retried_document = None"
    by (simp_all add: retried_document_def)
  have 2: "backend_results retried_document =
      [Returns (StrResp ''A''), Raises ''Error code: 429'', Raises ''Rate limit exceeded'',
       Returns (StrResp '' B ''), Returns (ObjResp ''C''), Raises ''Page 4 is out of range'']"
    by (simp add: retried_document_def)
  have 3: "attempt sample_env (Returns (StrResp ''A'')) = Inr ''A''"
    "attempt sample_env (Returns (StrResp '' B '')) = Inr ''B''"
    "attempt sample_env (Returns (ObjResp ''C'')) = Inr ''C''"
    by code_simp+
  have 4: "\<not> end_of_doc (lower ''Error code: 429'')"
    "rate_limit ''Error code: 429'' (lower ''Error code: 429'')"
    "\<not> end_of_doc (lower ''Rate limit exceeded'')"
    "rate_limit ''Rate limit exceeded'' (lower ''Rate limit exceeded'')"
    "end_of_doc (lower ''Page 4 is out of range'')"
    by code_simp+
  have 5: "joinpath sample_out (stem sample_pdf @ ''.txt'') = Path [''out'', ''doc.txt'']"
    by code_simp
  show ?thesis
    using three_pages_with_backoff [OF 1 2 3 4, of sample_pdf TASK_TYPE sample_out "''w1''"] 5
    by simp
qed

section \<open>Errors on a page\<close>

text \<open>
  C4. Five throttled attempts at one page exhaust the retry cap: the page adds nothing
  to the accumulated texts, the cursor moves to the next page, and the page loop goes
  on with the remaining results, the next of which is asked for the next page.
\<close>

theorem retry_cap_skips_page:
  assumes "is_rate_limited E r1" and "is_rate_limited E r2" and "is_rate_limited E r3"
    and "is_rate_limited E r4" and "is_rate_limited E r5"
  shows "MAX_RETRIES = 5 \<and>
    (\<exists>s'. page_loop E wr p w s (r1 # r2 # r3 # r4 # r5 # rest) = page_loop E wr p w s' rest \<and>
      page_num s' = page_num s + 1 \<and> pages s' = pages s \<and>
      calls (log s') = calls (log s) @
        [(page_num s, r1), (page_num s, r2), (page_num s, r3), (page_num s, r4), (page_num s, r5)] \<and>
      map fst (backoffs (log s')) = map fst (backoffs (log s)) @ [2, 4, 8, 16, 32] \<and>
      (\<forall>r rest'. rest = r # rest' \<longrightarrow>
         prefix (calls (log s') @ [(page_num s + 1, r)])
           (calls (log (snd (page_loop E wr p w s (r1 # r2 # r3 # r4 # r5 # rest)))))))"
proof -
  define s1 where "s1 = on_rate_limit E w (request r1 (begin_page s))"
  define s2 where "s2 = on_rate_limit E w (request r2 s1)"
  define s3 where "s3 = on_rate_limit E w (request r3 s2)"
  define s4 where "s4 = on_rate_limit E w (request r4 s3)"
  define s5 where "s5 = on_rate_limit E w (request r5 s4)"
  have r: "retries s1 = 1" "retries s2 = 2" "retries s3 = 3" "retries s4 = 4" "retries s5 = 5"
    by (simp_all add: s1_def s2_def s3_def s4_def s5_def)
  have n: "page_num s5 = page_num s" "pages s5 = pages s" "\<not> page_success s5"
    by (simp_all add: s1_def s2_def s3_def s4_def s5_def)
  have "page_loop E wr p w s (r1 # r2 # r3 # r4 # r5 # rest) =
      retry_loop E wr p w (begin_page s) (r1 # r2 # r3 # r4 # r5 # rest)"
    by (rule page_loop_eq)
  also have "\<dots> = retry_loop E wr p w s1 (r2 # r3 # r4 # r5 # rest)"
    unfolding s1_def by (rule retry_loop_throttled) (simp_all add: MAX_RETRIES_def assms)
  also have "\<dots> = retry_loop E wr p w s2 (r3 # r4 # r5 # rest)"
    unfolding s2_def by (rule retry_loop_throttled) (simp_all add: MAX_RETRIES_def assms r)
  also have "\<dots> = retry_loop E wr p w s3 (r4 # r5 # rest)"
    unfolding s3_def by (rule retry_loop_throttled) (simp_all add: MAX_RETRIES_def assms r)
  also have "\<dots> = retry_loop E wr p w s4 (r5 # rest)"
    unfolding s4_def by (rule retry_loop_throttled) (simp_all add: MAX_RETRIES_def assms r)
  also have "\<dots> = retry_loop E wr p w s5 rest"
    unfolding s5_def by (rule retry_loop_throttled) (simp_all add: MAX_RETRIES_def assms r)
  also have "\<dots> = page_loop E wr p w (after_retries s5) rest"
    by (rule retry_loop_exhausted) (simp add: MAX_RETRIES_def r)
  finally have run: "page_loop E wr p w s (r1 # r2 # r3 # r4 # r5 # rest) =
      page_loop E wr p w (after_retries s5) rest" .
  have num: "page_num (after_retries s5) = page_num s + 1"
    by (simp add: n r MAX_RETRIES_def)
  have cs: "calls (log (after_retries s5)) = calls (log s) @
        [(page_num s, r1), (page_num s, r2), (page_num s, r3), (page_num s, r4), (page_num s, r5)]"
    by (simp add: s1_def s2_def s3_def s4_def s5_def)
  have bs: "map fst (backoffs (log (after_retries s5))) = map fst (backoffs (log s)) @ [2, 4, 8, 16, 32]"
    by (simp add: s1_def s2_def s3_def s4_def s5_def)
  have nxt: "prefix (calls (log (after_retries s5)) @ [(page_num s + 1, r)])
           (calls (log (snd (page_loop E wr p w s (r1 # r2 # r3 # r4 # r5 # rest)))))"
    if "rest = r # rest'" for r rest'
    using page_loop_first_call [of "after_retries s5" r E wr p w rest'] that run num by simp
  show ?thesis
    using run num n(2) cs bs nxt
    by (intro conjI exI [of _ "after_retries s5"]) (simp_all add: MAX_RETRIES_def)
qed

theorem retry_cap_skips_page_witness:
  "\<exists>s'. page_loop sample_env None (Path [''out'', ''doc.txt'']) ''w1'' (start sample_out)
        (Raises ''429 Too Many Requests'' # Raises ''429 Too Many Requests'' #
         Raises ''429 Too Many Requests'' # Raises ''429 Too Many Requests'' #
         Raises ''429 Too Many Requests'' # [Returns (StrResp ''next'')]) =
      page_loop sample_env None (Path [''out'', ''doc.txt'']) ''w1'' s' [Returns (StrResp ''next'')] \<and>
      page_num s' = 2 \<and> pages s' = [] \<and>
      map fst (backoffs (log s')) = [2, 4, 8, 16, 32] \<and>
      prefix (calls (log s') @ [(2, Returns (StrResp ''next''))])
        (calls (log (snd (page_loop sample_env None (Path [''out'', ''doc.txt'']) ''w1''
          (start sample_out)
          (Raises ''429 Too Many Requests'' # Raises ''429 Too Many Requests'' #
           Raises ''429 Too Many Requests'' # Raises ''429 Too Many Requests'' #
           Raises ''429 Too Many Requests'' # [Returns (StrResp ''next'')])))))"
proof -
  have h: "is_rate_limited sample_env (Raises ''429 Too Many Requests'')"
    by code_simp
  show ?thesis
    using retry_cap_skips_page [OF h h h h h, of None "Path [''out'', ''doc.txt'']" "''w1''"
        "start sample_out" "[Returns (StrResp ''next'')]"]
    by auto
qed

text \<open>
  C5 as stated fails twice. An error that reports an exhausted quota without any of
  the three patterns is an ordinary error: page 1 is asked for once, page 2 next, and no
  backoff is slept. An error that contains \<open>429\<close> and also matches the end-of-document
  patterns ends the document: one call, no backoff, no retry.
\<close>

theorem rate_limit_claim_counterexample:
  "calls (log (snd (extract_pdf_multipage sample_env quota_document sample_pdf TASK_TYPE
       sample_out ''w1''))) =
     [(1, Raises ''Quota exceeded for this API key''), (2, Returns (StrResp ''B'')),
      (3, Raises ''page out of range'')] \<and>
   backoffs (log (snd (extract_pdf_multipage sample_env quota_document sample_pdf TASK_TYPE
       sample_out ''w1''))) = [] \<and>
   contains ''429'' ''429: requested page is out of range'' \<and>
   calls (log (snd (extract_pdf_multipage sample_env both_document sample_pdf TASK_TYPE
       sample_out ''w1''))) =
     [(1, Raises ''429: requested page is out of range'')] \<and>
   backoffs (log (snd (extract_pdf_multipage sample_env both_document sample_pdf TASK_TYPE
       sample_out ''w1''))) = [] \<and>
   fst (extract_pdf_multipage sample_env both_document sample_pdf TASK_TYPE sample_out ''w1'') =
     Returned In_loop None"
  by code_simp

text \<open>
  C5, as amended. An error that is not taken for the end of the document, and whose
  text contains \<open>429\<close> or whose lowercased text contains \<open>rate limit\<close> or
  \<open>too many requests\<close>, increments the retry counter and is followed by a backoff of
  \<open>2 ** retries\<close> seconds plus the worker's jitter; under the cap the next call asks
  for the same page.
\<close>

theorem rate_limit_retries_same_page:
  assumes "retries s < MAX_RETRIES" and "attempt E r = Inl e" and "\<not> end_of_doc (lower e)"
    and "contains ''429'' e \<or> contains ''rate limit'' (lower e) \<or>
      contains ''too many requests'' (lower e)"
  shows "\<exists>s'. retry_loop E wr p w s (r # rs) = retry_loop E wr p w s' rs \<and>
      retries s' = retries s + 1 \<and> page_num s' = page_num s \<and> pages s' = pages s \<and>
      calls (log s') = calls (log s) @ [(page_num s, r)] \<and>
      backoffs (log s') = backoffs (log s) @ [(2 ^ nat (retries s + 1), hash E w mod 10)] \<and>
      (retries s + 1 < MAX_RETRIES \<longrightarrow>
         (\<forall>r' rs'. rs = r' # rs' \<longrightarrow>
            prefix (calls (log s) @ [(page_num s, r), (page_num s, r')])
              (calls (log (snd (retry_loop E wr p w s (r # rs)))))))"
proof -
  let ?s' = "on_rate_limit E w (request r s)"
  have rl: "rate_limit e (lower e)"
    using assms(4) by (simp add: rate_limit_def)
  have run: "retry_loop E wr p w s (r # rs) = retry_loop E wr p w ?s' rs"
    using assms(1,2,3) rl by (rule retry_loop_rate_limit)
  have nxt: "prefix (calls (log s) @ [(page_num s, r), (page_num s, r')])
              (calls (log (snd (retry_loop E wr p w s (r # rs)))))"
    if "retries s + 1 < MAX_RETRIES" "rs = r' # rs'" for r' rs'
    using retry_loop_first_call [of ?s' r' E wr p w rs'] that run by simp
  show ?thesis
    using run nxt by (intro exI [of _ ?s']) simp
qed

theorem rate_limit_retries_same_page_witness:
  "\<exists>s'. retry_loop sample_env None (Path [''out'', ''doc.txt'']) ''w1'' (start sample_out)
        (Raises ''Too Many Requests'' # [Returns (StrResp ''B'')]) =
      retry_loop sample_env None (Path [''out'', ''doc.txt'']) ''w1'' s' [Returns (StrResp ''B'')] \<and>
      retries s' = 1 \<and> page_num s' = 1 \<and>
      backoffs (log s') = [(2, 7)] \<and>
      prefix [(1, Raises ''Too Many Requests''), (1, Returns (StrResp ''B''))]
        (calls (log (snd (retry_loop sample_env None (Path [''out'', ''doc.txt'']) ''w1''
          (start sample_out) (Raises ''Too Many Requests'' # [Returns (StrResp ''B'')])))))"
proof -
  have 1: "retries (start sample_out) < MAX_RETRIES"
    by (simp add: MAX_RETRIES_def)
  have 2: "attempt sample_env (Raises ''Too Many Requests'') = Inl ''Too Many Requests''"
    by (simp add: attempt_def)
  have 3: "\<not> end_of_doc (lower ''Too Many Requests'')"
    by code_simp
  have 4: "contains ''429'' ''Too Many Requests'' \<or>
      contains ''rate limit'' (lower ''Too Many Requests'') \<or>
      contains ''too many requests'' (lower ''Too Many Requests'')"
    by code_simp
  have 5: "hash sample_env ''w1'' mod 10 = 7"
    by (simp add: sample_env_def)
  show ?thesis
    using rate_limit_retries_same_page [OF 1 2 3 4, of None "Path [''out'', ''doc.txt'']" "''w1''"
        "[Returns (StrResp ''B'')]"] 5
    by (auto simp add: MAX_RETRIES_def)
qed

text \<open>
  C6. An error that is neither the end of the document nor throttling skips its page
  at once: the cursor advances by one, nothing is accumulated, no backoff is slept, and
  the page loop goes on with the next result, asked for the next page.
\<close>

theorem other_error_skips_page:
  assumes "retries s < MAX_RETRIES" and "attempt E r = Inl e"
    and "\<not> end_of_doc (lower e)" and "\<not> rate_limit e (lower e)"
  shows "\<exists>s'. retry_loop E wr p w s (r # rs) = page_loop E wr p w s' rs \<and>
      page_num s' = page_num s + 1 \<and> pages s' = pages s \<and>
      calls (log s') = calls (log s) @ [(page_num s, r)] \<and>
      backoffs (log s') = backoffs (log s) \<and>
      (\<forall>r' rs'. rs = r' # rs' \<longrightarrow>
         prefix (calls (log s) @ [(page_num s, r), (page_num s + 1, r')])
           (calls (log (snd (retry_loop E wr p w s (r # rs))))))"
proof (intro exI conjI allI impI)
  let ?s' = "after_retries (on_other_error (request r s))"
  show run: "retry_loop E wr p w s (r # rs) = page_loop E wr p w ?s' rs"
    using assms by (rule retry_loop_other)
  show num: "page_num ?s' = page_num s + 1"
    using assms(1) by simp
  show "pages ?s' = pages s" by simp
  show cs: "calls (log ?s') = calls (log s) @ [(page_num s, r)]" by simp
  show "backoffs (log ?s') = backoffs (log s)" by simp
  fix r' rs' assume "rs = r' # rs'"
  then show "prefix (calls (log s) @ [(page_num s, r), (page_num s + 1, r')])
           (calls (log (snd (retry_loop E wr p w s (r # rs)))))"
    using page_loop_first_call [of ?s' r' E wr p w rs'] run num cs by simp
qed

theorem other_error_skips_page_witness:
  "\<exists>s'. retry_loop sample_env None (Path [''out'', ''doc.txt'']) ''w1'' (start sample_out)
        (Raises ''Internal server error'' # [Returns (StrResp ''B'')]) =
      page_loop sample_env None (Path [''out'', ''doc.txt'']) ''w1'' s' [Returns (StrResp ''B'')] \<and>
      page_num s' = 2 \<and> pages s' = [] \<and> backoffs (log s') = [] \<and>
      prefix [(1, Raises ''Internal server error''), (2, Returns (StrResp ''B''))]
        (calls (log (snd (retry_loop sample_env None (Path [''out'', ''doc.txt'']) ''w1''
          (start sample_out) (Raises ''Internal server error'' # [Returns (StrResp ''B'')])))))"
proof -
  have 1: "retries (start sample_out) < MAX_RETRIES"
    by (simp add: MAX_RETRIES_def)
  have 2: "attempt sample_env (Raises ''Internal server error'') = Inl ''Internal server error''"
    by (simp add: attempt_def)
  have 3: "\<not> end_of_doc (lower ''Internal server error'')"
    "\<not> rate_limit ''Internal server error'' (lower ''Internal server error'')"
    by code_simp+
  show ?thesis
    using other_error_skips_page [OF 1 2 3, of None "Path [''out'', ''doc.txt'']" "''w1''"
        "[Returns (StrResp ''B'')]"]
    by auto
qed



section \<open>Leaving the page loop\<close>

text \<open>
  C7. The code after the page loop is never run. When some backend result is an
  end-of-document error the run ends, by the return inside the loop unless \<open>mkdir\<close>
  or \<open>write_text\<close> raises; without such a result the loop does not end.
\<close>

theorem page_loop_exits_at_end_of_doc:
  "(\<forall>out. fst (extract_pdf_multipage E D pdf_path task_type output_dir worker_id) \<noteq>
        Returned After_loop out) \<and>
   ((\<exists>e. Raises e \<in> set (backend_results D) \<and> end_of_doc (lower e)) \<longrightarrow>
      (case fst (extract_pdf_multipage E D pdf_path task_type output_dir worker_id) of
         Returned site out \<Rightarrow> site = In_loop
       | Raised x \<Rightarrow> mkdir_raises D = Some x \<or> write_raises D = Some x
       | Starved \<Rightarrow> False)) \<and>
   ((\<exists>e. Raises e \<in> set (backend_results D) \<and> end_of_doc (lower e)) \<and>
      mkdir_raises D = None \<and> write_raises D = None \<longrightarrow>
      (\<exists>out. fst (extract_pdf_multipage E D pdf_path task_type output_dir worker_id) =
         Returned In_loop out)) \<and>
   (\<not> (\<exists>e. Raises e \<in> set (backend_results D) \<and> end_of_doc (lower e)) \<and>
      mkdir_raises D = None \<longrightarrow>
      fst (extract_pdf_multipage E D pdf_path task_type output_dir worker_id) = Starved)"
  using end_of_doc_arrives_iff [of "backend_results D" E]
  by (simp add: extract_ending split: option.splits)

theorem page_loop_exits_at_end_of_doc_witness:
  "Raises ''Page not found'' \<in> set (backend_results mixed_document) \<and>
   end_of_doc (lower ''Page not found'') \<and>
   (\<exists>out. fst (extract_pdf_multipage sample_env mixed_document sample_pdf TASK_TYPE sample_out
      ''w1'') = Returned In_loop out) \<and>
   \<not> (\<exists>e. Raises e \<in> set (backend_results endless_document) \<and> end_of_doc (lower e)) \<and>
   fst (extract_pdf_multipage sample_env endless_document sample_pdf TASK_TYPE sample_out ''w1'') =
     Starved"
proof -
  have 1: "Raises ''Page not found'' \<in> set (backend_results mixed_document)"
    by (simp add: mixed_document_def)
  have 2: "end_of_doc (lower ''Page not found'')"
    by code_simp
  have 3: "mkdir_raises mixed_document = None" "write_raises mixed_document = None"
    by (simp_all add: mixed_document_def)
  have "\<not> end_of_doc (lower ''boom'')" "\<not> end_of_doc (lower ''429'')"
    by code_simp+
  then have 4: "\<not> (\<exists>e. Raises e \<in> set (backend_results endless_document) \<and> end_of_doc (lower e))"
    by (auto simp add: endless_document_def)
  have 5: "mkdir_raises endless_document = None"
    by (simp add: endless_document_def)
  show ?thesis
    using page_loop_exits_at_end_of_doc [of sample_env mixed_document sample_pdf TASK_TYPE
        sample_out "''w1''"]
      page_loop_exits_at_end_of_doc [of sample_env endless_document sample_pdf TASK_TYPE
        sample_out "''w1''"] 1 2 3 4 5
    by blast
qed

section \<open>The directory walker and the credential\<close>

text \<open>
  C8. The walker takes the entries of the directory named \<open>*.pdf\<close>, each once, in
  ascending order of their names, calls the extractor on every one of them in that
  order, whether or not an earlier one raised, and returns the paths of those that
  produced a file, in that order. A missing directory gives the empty list.
\<close>

theorem process_directory_walk:
  assumes "\<forall>pdf \<in> set (glob_pdf dir_path (dir_entries W)).
      mkdir_raises (outside_of W pdf) \<noteq> None \<or>
      (\<exists>r \<in> set (backend_results (outside_of W pdf)). is_end_of_doc E r)"
  shows "sorted (map name (sort_key name (glob_pdf dir_path (dir_entries W)))) \<and>
      mset (sort_key name (glob_pdf dir_path (dir_entries W))) =
        mset (glob_pdf dir_path (dir_entries W)) \<and>
      (dir_exists W \<longrightarrow>
         fst (process_directory E W dir_path output_dir worker_id) =
           Some (List.map_filter (produced E W output_dir worker_id)
             (sort_key name (glob_pdf dir_path (dir_entries W)))) \<and>
         extracted (snd (process_directory E W dir_path output_dir worker_id)) =
           sort_key name (glob_pdf dir_path (dir_entries W))) \<and>
      (\<not> dir_exists W \<longrightarrow> process_directory E W dir_path output_dir worker_id = (Some [], []))"
proof -
  let ?pdfs = "sort_key name (glob_pdf dir_path (dir_entries W))"
  have "\<forall>pdf \<in> set ?pdfs.
      fst (extract_pdf_multipage E (outside_of W pdf) pdf TASK_TYPE output_dir worker_id) \<noteq> Starved"
    using assms by (auto simp add: extract_ending split: option.splits)
  then have walk: "fst (for_pdfs E W output_dir worker_id (int (length ?pdfs)) 1 [] [] ?pdfs) =
        Some (List.map_filter (produced E W output_dir worker_id) ?pdfs) \<and>
      extracted (snd (for_pdfs E W output_dir worker_id (int (length ?pdfs)) 1 [] [] ?pdfs)) = ?pdfs"
    using for_pdfs_walk [of ?pdfs E W output_dir worker_id "int (length ?pdfs)" 1 "[]" "[]"] by simp
  have "dir_exists W \<Longrightarrow>
      fst (process_directory E W dir_path output_dir worker_id) =
         Some (List.map_filter (produced E W output_dir worker_id) ?pdfs) \<and>
      extracted (snd (process_directory E W dir_path output_dir worker_id)) = ?pdfs"
  proof (cases "?pdfs = []")
    case True
    assume "dir_exists W"
    then show ?thesis
      using True by (simp add: process_directory_def List.map_filter_simps)
  next
    case False
    assume "dir_exists W"
    then show ?thesis
      using False walk by (simp add: process_directory_def Let_def)
  qed
  then show ?thesis
    by (simp add: process_directory_def sorted_sort_key)
qed

theorem process_directory_walk_witness:
  "fst (process_directory sample_env sample_world (Path [''in'']) sample_out ''w1'') =
     Some [Path [''out'', ''a.txt'']] \<and>
   extracted (snd (process_directory sample_env sample_world (Path [''in'']) sample_out ''w1'')) =
     [Path [''in'', ''a.pdf''], Path [''in'', ''b.pdf''], Path [''in'', ''c.pdf''],
      Path [''in'', ''d.pdf'']]"
proof -
  have 1: "\<forall>pdf \<in> set (glob_pdf (Path [''in'']) (dir_entries sample_world)).
      mkdir_raises (outside_of sample_world pdf) \<noteq> None \<or>
      (\<exists>r \<in> set (backend_results (outside_of sample_world pdf)). is_end_of_doc sample_env r)"
    by code_simp
  have 2: "dir_exists sample_world"
    by (simp add: sample_world_def)
  have 3: "sort_key name (glob_pdf (Path [''in'']) (dir_entries sample_world)) =
      [Path [''in'', ''a.pdf''], Path [''in'', ''b.pdf''], Path [''in'', ''c.pdf''],
       Path [''in'', ''d.pdf'']]"
    by code_simp
  have 4: "List.map_filter (produced sample_env sample_world sample_out ''w1'')
      [Path [''in'', ''a.pdf''], Path [''in'', ''b.pdf''], Path [''in'', ''c.pdf''],
       Path [''in'', ''d.pdf'']] = [Path [''out'', ''a.txt'']]"
    by code_simp
  show ?thesis
    using process_directory_walk [OF 1, of sample_out "''w1''"] 2 3 4 by simp
qed

text \<open>
  C9. The key given on the command line is used first, then the variable
  \<open>TYPHOON_OCR_API_KEY\<close>, then \<open>OPENAI_API_KEY\<close>; when none of them gives a key the
  process exits with a status other than 0.
\<close>

theorem credential_priority:
  "(\<forall>k. provided_key = Some k \<and> given provided_key \<longrightarrow>
      get_api_key_priority_order getenv provided_key = Inr k) \<and>
   (\<forall>k. \<not> given provided_key \<and> getenv ''TYPHOON_OCR_API_KEY'' = Some k \<and> k \<noteq> [] \<longrightarrow>
      get_api_key_priority_order getenv provided_key = Inr k) \<and>
   (\<forall>k. \<not> given provided_key \<and> \<not> truthy (getenv ''TYPHOON_OCR_API_KEY'') \<and>
      getenv ''OPENAI_API_KEY'' = Some k \<and> k \<noteq> [] \<longrightarrow>
      get_api_key_priority_order getenv provided_key = Inr k) \<and>
   (\<not> given provided_key \<and> \<not> truthy (getenv ''TYPHOON_OCR_API_KEY'') \<and>
      \<not> truthy (getenv ''OPENAI_API_KEY'') \<longrightarrow>
      (\<exists>x. get_api_key_priority_order getenv provided_key = Inl x \<and> exit_status x \<noteq> 0))"
  by (auto simp add: get_api_key_priority_order_def given_def truthy_def lower_def
      split: option.splits)

theorem credential_priority_witness:
  "get_api_key_priority_order sample_getenv (Some ''key-cli'') = Inr ''key-cli'' \<and>
   get_api_key_priority_order sample_getenv (Some ''Dummy'') = Inr ''key-typhoon'' \<and>
   get_api_key_priority_order generic_getenv None = Inr ''key-generic'' \<and>
   (\<exists>x. get_api_key_priority_order (\<lambda>v. None) (Some ''NONE'') = Inl x \<and> exit_status x \<noteq> 0)"
proof -
  have 1: "given (Some ''key-cli'')" "\<not> given (Some ''Dummy'')" "\<not> given None"
    "\<not> given (Some ''NONE'')"
    by code_simp+
  have 2: "sample_getenv ''TYPHOON_OCR_API_KEY'' = Some ''key-typhoon''"
    "\<not> truthy (generic_getenv ''TYPHOON_OCR_API_KEY'')"
    "generic_getenv ''OPENAI_API_KEY'' = Some ''key-generic''"
    by (simp_all add: sample_getenv_def generic_getenv_def truthy_def)
  have 3: "\<not> truthy ((\<lambda>v. None) ''TYPHOON_OCR_API_KEY'')" "\<not> truthy ((\<lambda>v. None) ''OPENAI_API_KEY'')"
    by (simp_all add: truthy_def)
  show ?thesis
    using credential_priority [of "Some ''key-cli''" sample_getenv]
      credential_priority [of "Some ''Dummy''" sample_getenv]
      credential_priority [of None generic_getenv]
      credential_priority [of "Some ''NONE''" "\<lambda>v. None"] 1 2 3
    by simp
qed

end
